theory Spec2Isabelle
  imports Main "HOL-Library.Sublist"
begin

unbundle bit_operations_syntax

section \<open>JavaScript strings\<close>

text \<open>
  A JavaScript string is a sequence of UTF-16 code units, each below 65536. An emoji
  beyond the basic plane is two code units (a surrogate pair), and string equality,
  \<^verbatim>\<open>slice\<close> and \<^verbatim>\<open>trim\<close> all work on code units. \<open>ascii\<close> reads an ASCII literal.
\<close>

type_synonym jsstring = "nat list"

definition ascii :: "string \<Rightarrow> jsstring" where
  "ascii s = map of_char s"

text \<open>\<^verbatim>\<open>s.slice(0, -1)\<close>: all code units but the last; the empty string stays empty.\<close>

definition slice_0_minus1 :: "jsstring \<Rightarrow> jsstring" where
  "slice_0_minus1 s = butlast s"

text \<open>\<^verbatim>\<open>String.prototype.trim\<close> removes white space and line terminators at both ends.\<close>

definition isWhiteSpace :: "nat \<Rightarrow> bool" where
  "isWhiteSpace c =
     (c = 9 \<or> c = 10 \<or> c = 11 \<or> c = 12 \<or> c = 13 \<or> c = 32 \<or> c = 0xA0 \<or> c = 0x1680
      \<or> (0x2000 \<le> c \<and> c \<le> 0x200A)
      \<or> c = 0x2028 \<or> c = 0x2029 \<or> c = 0x202F \<or> c = 0x205F \<or> c = 0x3000 \<or> c = 0xFEFF)"

definition trim :: "jsstring \<Rightarrow> jsstring" where
  "trim s = rev (dropWhile isWhiteSpace (rev (dropWhile isWhiteSpace s)))"

section \<open>The canonical encoder: \<^verbatim>\<open>punycode.encode\<close>\<close>

text \<open>
  The program turns an emoji slug into its storage key with \<^verbatim>\<open>encode\<close> of the
  \<^verbatim>\<open>punycode\<close> module (the Bootstring encoder of RFC 3492). The module is loaded
  with \<^verbatim>\<open>require\<close>; its algorithm is written out here with the module's names:
  \<open>ucs2decode\<close> joins surrogate pairs into code points, \<open>adapt\<close> is the bias
  adaptation, \<open>encode_digits\<close> is the inner loop that writes one delta as a
  variable-length integer, \<open>encode_pass\<close> is the \<^verbatim>\<open>for\<close> loop over the input for
  one code point \<open>n\<close>, and \<open>encode_main\<close> is the main \<^verbatim>\<open>while\<close> loop. That
  loop takes the smallest unhandled code point \<open>m \<ge> n\<close> in every round, so it visits the
  distinct non-basic code points of the input in increasing order; \<open>encode_main\<close>
  recurses over that sorted list. Both \<^verbatim>\<open>error('overflow')\<close> exits are the result
  \<open>None\<close>.
\<close>

abbreviation maxInt :: nat where "maxInt \<equiv> 2147483647"
abbreviation base :: nat where "base \<equiv> 36"
abbreviation tMin :: nat where "tMin \<equiv> 1"
abbreviation tMax :: nat where "tMax \<equiv> 26"
abbreviation skew :: nat where "skew \<equiv> 38"
abbreviation damp :: nat where "damp \<equiv> 700"
abbreviation initialBias :: nat where "initialBias \<equiv> 72"
abbreviation initialN :: nat where "initialN \<equiv> 128"
abbreviation delimiter :: nat where "delimiter \<equiv> 45"

fun ucs2decode :: "jsstring \<Rightarrow> nat list" where
  "ucs2decode [] = []"
| "ucs2decode [v] = [v]"
| "ucs2decode (v # extra # rest) =
     (if 0xD800 \<le> v \<and> v \<le> 0xDBFF then
        (if extra AND 0xFC00 = 0xDC00
         then ((v AND 0x3FF) * 1024 + (extra AND 0x3FF) + 0x10000) # ucs2decode rest
         else v # ucs2decode (extra # rest))
      else v # ucs2decode (extra # rest))"

definition digitToBasic :: "nat \<Rightarrow> nat" where
  "digitToBasic digit = digit + 22 + 75 * (if digit < 26 then 1 else 0)"

function adapt_loop :: "nat \<Rightarrow> nat \<Rightarrow> nat \<times> nat" where
  "adapt_loop delta k =
     (if delta > ((base - tMin) * tMax) div 2
      then adapt_loop (delta div (base - tMin)) (k + base)
      else (delta, k))"
  by pat_completeness auto
termination
  by (relation "measure (\<lambda>(delta, k). delta)") auto

definition adapt :: "nat \<Rightarrow> nat \<Rightarrow> bool \<Rightarrow> nat" where
  "adapt delta numPoints firstTime =
     (let d0 = (if firstTime then delta div damp else delta div 2);
          d1 = d0 + d0 div numPoints;
          (d2, k) = adapt_loop d1 0
      in k + (base - tMin + 1) * d2 div (d2 + skew))"

function encode_digits :: "nat \<Rightarrow> nat \<Rightarrow> nat \<Rightarrow> nat list" where
  "encode_digits bias q k =
     (let t = (if k \<le> bias then tMin else if k \<ge> bias + tMax then tMax else k - bias)
      in if q < t then [digitToBasic q]
         else digitToBasic (t + (q - t) mod (base - t))
              # encode_digits bias ((q - t) div (base - t)) (k + base))"
  by pat_completeness auto
termination
proof (relation "measure (\<lambda>(bias, q, k). q)")
  fix bias q k t :: nat
  assume t: "t = (if k \<le> bias then tMin else if bias + tMax \<le> k then tMax else k - bias)"
    and q: "\<not> q < t"
  from t have "1 \<le> t" by (simp split: if_splits)
  moreover have "(q - t) div (base - t) \<le> q - t" by (rule div_le_dividend)
  ultimately have "(q - t) div (base - t) < q" using q by linarith
  then show "((bias, (q - t) div (base - t), k + base), bias, q, k) \<in> measure (\<lambda>(bias, q, k). q)"
    by simp
qed simp

declare adapt_loop.simps [simp del] encode_digits.simps [simp del]

fun encode_pass ::
  "nat \<Rightarrow> nat \<Rightarrow> nat \<Rightarrow> nat list \<Rightarrow> nat \<times> nat \<times> nat \<times> jsstring
     \<Rightarrow> (nat \<times> nat \<times> nat \<times> jsstring) option" where
  "encode_pass n handledCPCountPlusOne basicLength [] st = Some st"
| "encode_pass n handledCPCountPlusOne basicLength (currentValue # rest)
       (delta, bias, handledCPCount, output) =
     (let delta1 = (if currentValue < n then delta + 1 else delta)
      in if currentValue < n \<and> delta1 > maxInt then None
         else if currentValue = n
         then encode_pass n handledCPCountPlusOne basicLength rest
                (0, adapt delta1 handledCPCountPlusOne (handledCPCount = basicLength),
                 handledCPCount + 1, output @ encode_digits bias delta1 base)
         else encode_pass n handledCPCountPlusOne basicLength rest
                (delta1, bias, handledCPCount, output))"

fun encode_main ::
  "nat list \<Rightarrow> nat \<Rightarrow> nat list \<Rightarrow> nat \<times> nat \<times> nat \<times> nat \<times> jsstring
     \<Rightarrow> jsstring option" where
  "encode_main input basicLength [] (n, delta, bias, handledCPCount, output) = Some output"
| "encode_main input basicLength (m # ms) (n, delta, bias, handledCPCount, output) =
     (if m - n > (maxInt - delta) div (handledCPCount + 1) then None
      else case encode_pass m (handledCPCount + 1) basicLength input
                  (delta + (m - n) * (handledCPCount + 1), bias, handledCPCount, output) of
             None \<Rightarrow> None
           | Some (delta', bias', handledCPCount', output') \<Rightarrow>
               encode_main input basicLength ms (m + 1, delta' + 1, bias', handledCPCount', output'))"

definition encode :: "jsstring \<Rightarrow> jsstring option" where
  "encode string =
     (let input = ucs2decode string;
          basic = filter (\<lambda>currentValue. currentValue < 0x80) input;
          basicLength = length basic;
          output = (if basicLength \<noteq> 0 then basic @ [delimiter] else basic)
      in encode_main input basicLength
           (sort (remdups (filter (\<lambda>currentValue. initialN \<le> currentValue) input)))
           (initialN, 0, initialBias, basicLength, output))"

section \<open>Records, the store and the loaded modules\<close>

text \<open>
  A stored document, as line 152 of the service builds it:
  \<^verbatim>\<open>{ emojis: encodedEmojis, url: url, raw: emojis }\<close>. The field \<open>emojis\<close> is the
  canonical key, \<open>raw\<close> the slug as typed or generated, \<open>url\<close> the target as the request
  body gave it (a body may lack the property, hence the option). The identifier the
  database adds to a stored document is left out.
\<close>

record doc =
  emojis :: jsstring
  url :: "jsstring option"
  raw :: jsstring

text \<open>
  The state outside a request: the \<^verbatim>\<open>urls\<close> collection in insertion order (the order
  in which \<^verbatim>\<open>find({})\<close> lists it), and the number of emoji that
  \<^verbatim>\<open>nodeEmoji.random()\<close> has handed out so far.
\<close>

record world =
  urls :: "doc list"
  drawn :: nat

text \<open>
  What the program takes from its surroundings: the URL pattern of the validation
  library (\<open>isUrl\<close>), the sequence of emoji that the random generator yields
  (\<open>nodeEmoji_random env i\<close> is the emoji of its \<open>i\<close>-th call) and the configured
  domain name. Every theorem below holds for each choice of them.
\<close>

record env =
  isUrl :: "jsstring \<Rightarrow> bool"
  nodeEmoji_random :: "nat \<Rightarrow> jsstring"
  domain :: jsstring

text \<open>The JSON body of a \<^verbatim>\<open>POST /newURL\<close> request: \<^verbatim>\<open>{ emojis?, url? }\<close>.\<close>

record body =
  body_emojis :: "jsstring option"
  body_url :: "jsstring option"

section \<open>Errors and the error handler\<close>

text \<open>
  An error object with the three properties the handler and the claims look at. No error
  that the program or its modules create carries a \<open>status\<close>.
\<close>

datatype error = JsError (name: string) (status: "nat option") (message: jsstring)

definition existsErrorMessage :: jsstring where
  "existsErrorMessage = ascii ''This emoji slug already exists... '' @ [0xD83D, 0xDE3F]"

definition emojiErrorMessage :: jsstring where
  "emojiErrorMessage =
     ascii ''There must be at least 1 emoji in the slug... '' @ [0xD83D, 0xDC79]"

text \<open>\<^verbatim>\<open>new Error(message)\<close>, as lines 144 and 149 throw it.\<close>

definition new_Error :: "jsstring \<Rightarrow> error" where
  "new_Error msg = JsError ''Error'' None msg"

text \<open>The error of the validation library; its message names the field and the test.\<close>

definition ValidationError :: "jsstring \<Rightarrow> error" where
  "ValidationError msg = JsError ''ValidationError'' None msg"

text \<open>The error of \<^verbatim>\<open>punycode.encode\<close> when its integers overflow.\<close>

definition overflowError :: error where
  "overflowError =
     JsError ''RangeError'' None (ascii ''Overflow: input needs wider integers to process'')"

text \<open>
  The error of the database when an insert violates the unique index on \<open>emojis\<close>. The
  server's message starts with the text below and goes on with the names of the
  collection and the index and with the key.
\<close>

definition duplicateKeyError :: error where
  "duplicateKeyError = JsError ''MongoError'' None (ascii ''E11000 duplicate key error'')"

text \<open>
  The error middleware (lines 167 to 190): the status of the response. A truthy
  \<open>status\<close> of the error wins; otherwise the message picks 444, 555 or the default 500.
\<close>

definition error_status :: "error \<Rightarrow> nat" where
  "error_status e =
     (if (case status e of Some st \<Rightarrow> st \<noteq> 0 | None \<Rightarrow> False) then the (status e)
      else if message e = existsErrorMessage then 444
      else if message e = emojiErrorMessage then 555
      else 500)"

section \<open>The validation schema\<close>

text \<open>
  \<^verbatim>\<open>recordSchema\<close> (lines 51 to 57) has two fields. \<open>emojis\<close> is an optional string,
  trimmed, that must match \<^verbatim>\<open>/^[\w\-]/i\<close>: its first code unit is a letter, a
  digit, an underscore or a hyphen. \<open>url\<close> is a required string, trimmed, that must
  match the library's URL pattern. A schema field tests the property of the same name of
  the validated object; an absent property passes every test but \<^verbatim>\<open>required\<close>.
  Each function returns the message of the failing test, if any.
\<close>

definition isWordChar :: "nat \<Rightarrow> bool" where
  "isWordChar c = ((48 \<le> c \<and> c \<le> 57) \<or> (65 \<le> c \<and> c \<le> 90) \<or> c = 95 \<or> (97 \<le> c \<and> c \<le> 122))"

definition matches_pattern :: "jsstring \<Rightarrow> bool" where
  "matches_pattern s = (case s of [] \<Rightarrow> False | c # cs \<Rightarrow> isWordChar c \<or> c = 45)"

definition emojis_schema :: "jsstring option \<Rightarrow> jsstring option" where
  "emojis_schema v =
     (case v of
        None \<Rightarrow> None
      | Some s \<Rightarrow>
          if matches_pattern (trim s) then None
          else Some (ascii ''emojis must match the following: '' @ [34] @ ascii ''/^[''
                     @ [92] @ ascii ''w'' @ [92] @ ascii ''-]/i'' @ [34]))"

definition url_schema :: "env \<Rightarrow> jsstring option \<Rightarrow> jsstring option" where
  "url_schema env v =
     (case v of
        None \<Rightarrow> Some (ascii ''url is a required field'')
      | Some s \<Rightarrow>
          if trim s = [] then Some (ascii ''url is a required field'')
          else if isUrl env (trim s) then None
          else Some (ascii ''url must be a valid URL''))"

text \<open>
  \<^verbatim>\<open>recordSchema.validate(obj)\<close>: \<open>None\<close> when the object passes, the thrown error
  otherwise. The object is a map from property names to strings.
\<close>

definition recordSchema_validate :: "env \<Rightarrow> (string \<Rightarrow> jsstring option) \<Rightarrow> error option" where
  "recordSchema_validate env obj =
     (case emojis_schema (obj ''emojis'') of
        Some msg \<Rightarrow> Some (ValidationError msg)
      | None \<Rightarrow>
          (case url_schema env (obj ''url'') of
             Some msg \<Rightarrow> Some (ValidationError msg)
           | None \<Rightarrow> None))"

section \<open>Store operations\<close>

text \<open>\<^verbatim>\<open>urls.findOne({ emojis: key })\<close>: the first document with that key, if any.\<close>

definition findOne :: "jsstring \<Rightarrow> world \<Rightarrow> doc option" where
  "findOne key w = find (\<lambda>d. emojis d = key) (urls w)"

text \<open>\<^verbatim>\<open>keyExists\<close> of the service (lines 60 to 68).\<close>

definition keyExists :: "world \<Rightarrow> jsstring \<Rightarrow> bool" where
  "keyExists w key = (case findOne key w of Some d \<Rightarrow> True | None \<Rightarrow> False)"

text \<open>
  \<^verbatim>\<open>urls.insert(newURL)\<close> on the collection with the unique index of line 27,
  \<^verbatim>\<open>urls.createIndex({ emojis: 1 }, { unique: true })\<close>: the database refuses a
  document whose \<open>emojis\<close> is the \<open>emojis\<close> of a stored one, and appends it otherwise.
\<close>

definition urls_insert :: "doc \<Rightarrow> world \<Rightarrow> error + world" where
  "urls_insert d w =
     (if emojis d \<in> set (map emojis (urls w)) then Inl duplicateKeyError
      else Inr (w\<lparr>urls := urls w @ [d]\<rparr>))"

section \<open>\<^verbatim>\<open>POST /newURL\<close>\<close>

text \<open>
  How a request ends: \<open>Sent d\<close> is \<^verbatim>\<open>res.send\<close> with the created document,
  \<open>Failed e\<close> is \<^verbatim>\<open>next(e)\<close> from the \<^verbatim>\<open>catch\<close> block, answered by the error
  middleware with \<open>error_status e\<close>, and \<open>Unhandled e\<close> is an exception thrown outside
  the \<^verbatim>\<open>try\<close> block (line 129): the handler's promise is rejected and no response is
  written.
\<close>

datatype outcome = Sent doc | Failed error | Unhandled error

text \<open>
  The handler is an \<^verbatim>\<open>async\<close> function: it runs without interruption up to each
  \<^verbatim>\<open>await\<close> of a store operation, and other requests run in between. A request in
  flight is therefore at one of these points:
  \<^item> \<open>Start b\<close>: arrived with body \<open>b\<close>, nothing executed yet;
  \<^item> \<open>AwaitKeyExists encodedEmojis emojis url\<close>: about to run the query of
    \<^verbatim>\<open>keyExists(encodedEmojis)\<close> of line 141;
  \<^item> \<open>AwaitGenerate url\<close>: inside \<^verbatim>\<open>generateRandomEmojis\<close>, about to run one round
    of its \<^verbatim>\<open>do ... while\<close> loop;
  \<^item> \<open>AwaitInsert d\<close>: about to run \<^verbatim>\<open>urls.insert(d)\<close> of line 153;
  \<^item> \<open>Done r\<close>: finished with outcome \<open>r\<close>.
\<close>

datatype request =
    Start body
  | AwaitKeyExists jsstring jsstring "jsstring option"
  | AwaitGenerate "jsstring option"
  | AwaitInsert doc
  | Done outcome

text \<open>
  The local variables \<^verbatim>\<open>emojis\<close> and \<^verbatim>\<open>url\<close> of the handler are written
  \<open>emojis'\<close> and \<open>url'\<close> below, since \<open>emojis\<close> and \<open>url\<close> are the fields of a stored
  document.

  Lines 148 to 152: a key that, without its last code unit, is the slug itself is
  refused with \<open>emojiErrorMessage\<close>; otherwise the document is built.
\<close>

definition check_slug :: "jsstring \<Rightarrow> jsstring \<Rightarrow> jsstring option \<Rightarrow> request" where
  "check_slug encodedEmojis emojis' url' =
     (if slice_0_minus1 encodedEmojis = emojis' then Done (Failed (new_Error emojiErrorMessage))
      else AwaitInsert \<lparr>emojis = encodedEmojis, url = url', raw = emojis'\<rparr>)"

text \<open>
  Lines 131 to 140, after \<open>encodedEmojis\<close> is known (\<open>None\<close> is \<^verbatim>\<open>undefined\<close>).
  The validated object is \<^verbatim>\<open>{ encodedEmojis, url }\<close>: its properties are named
  \<open>encodedEmojis\<close> and \<open>url\<close>.
\<close>

definition validate_and_branch ::
  "env \<Rightarrow> jsstring option \<Rightarrow> jsstring \<Rightarrow> jsstring option \<Rightarrow> request" where
  "validate_and_branch env encodedEmojis emojis' url' =
     (case recordSchema_validate env
             ((\<lambda>property. None)(''encodedEmojis'' := encodedEmojis, ''url'' := url')) of
        Some err \<Rightarrow> Done (Failed err)
      | None \<Rightarrow>
          (case encodedEmojis of
             None \<Rightarrow> AwaitGenerate url'
           | Some k \<Rightarrow> if k = [] then AwaitGenerate url' else AwaitKeyExists k emojis' url'))"

text \<open>
  Lines 128 to 140. \<^verbatim>\<open>emojis ? punycode.encode(emojis) : undefined\<close>: an absent or
  empty slug is falsy. The call of \<^verbatim>\<open>punycode.encode\<close> stands before the
  \<^verbatim>\<open>try\<close> block. With a falsy slug the handler goes on to the generator, which
  overwrites \<^verbatim>\<open>emojis\<close>; the slug handed on in that case is never read.
\<close>

definition start_request :: "env \<Rightarrow> body \<Rightarrow> request" where
  "start_request env b =
     (case body_emojis b of
        None \<Rightarrow> validate_and_branch env None [] (body_url b)
      | Some emojis' \<Rightarrow>
          if emojis' = [] then validate_and_branch env None [] (body_url b)
          else (case encode emojis' of
                  None \<Rightarrow> Done (Unhandled overflowError)
                | Some encodedEmojis \<Rightarrow>
                    validate_and_branch env (Some encodedEmojis) emojis' (body_url b)))"

text \<open>
  One round of the loop of \<^verbatim>\<open>generateRandomEmojis\<close> (lines 74 to 80): five emoji are
  drawn and joined, the candidate is encoded and its key looked up. When the key is in
  use the loop goes round again; when it is free the function returns and lines 139 to
  152 follow. An overflow of the encoder is thrown inside the \<^verbatim>\<open>try\<close> block.
\<close>

definition five_emojis :: "env \<Rightarrow> nat \<Rightarrow> jsstring" where
  "five_emojis env n = concat (map (nodeEmoji_random env) [n ..< n + 5])"

text \<open>The candidate of round \<open>i\<close> (counted from 0) of a loop that starts in world \<open>w\<close>.\<close>

definition candidate :: "env \<Rightarrow> world \<Rightarrow> nat \<Rightarrow> jsstring" where
  "candidate env w i = five_emojis env (drawn w + 5 * i)"

definition generate_round :: "env \<Rightarrow> world \<Rightarrow> jsstring option \<Rightarrow> world \<times> request" where
  "generate_round env w url' =
     (let emojis' = five_emojis env (drawn w);
          w' = w\<lparr>drawn := drawn w + 5\<rparr>
      in case encode emojis' of
           None \<Rightarrow> (w', Done (Failed overflowError))
         | Some key \<Rightarrow>
             if keyExists w' key then (w', AwaitGenerate url')
             else (case encode emojis' of
                     None \<Rightarrow> (w', Done (Failed overflowError))
                   | Some encodedEmojis \<Rightarrow> (w', check_slug encodedEmojis emojis' url')))"

text \<open>One step of a request: from its current point up to the next one.\<close>

fun step :: "env \<Rightarrow> world \<Rightarrow> request \<Rightarrow> world \<times> request" where
  "step env w (Start b) = (w, start_request env b)"
| "step env w (AwaitKeyExists encodedEmojis emojis' url') =
     (if keyExists w encodedEmojis then (w, Done (Failed (new_Error existsErrorMessage)))
      else (w, check_slug encodedEmojis emojis' url'))"
| "step env w (AwaitGenerate url') = generate_round env w url'"
| "step env w (AwaitInsert d) =
     (case urls_insert d w of
        Inl err \<Rightarrow> (w, Done (Failed err))
      | Inr w' \<Rightarrow> (w', Done (Sent d)))"
| "step env w (Done r) = (w, Done r)"

fun finished :: "request \<Rightarrow> outcome option" where
  "finished (Done r) = Some r"
| "finished _ = None"

text \<open>
  A request that runs alone, from any point to its end. The loop of
  \<^verbatim>\<open>generateRandomEmojis\<close> has no bound, so the run is a partial function: \<open>None\<close>
  means that it never ends.
\<close>

partial_function (option) run :: "env \<Rightarrow> world \<Rightarrow> request \<Rightarrow> (world \<times> outcome) option" where
  "run env w p =
     (case finished p of
        Some r \<Rightarrow> Some (w, r)
      | None \<Rightarrow> run env (fst (step env w p)) (snd (step env w p)))"

definition post_newURL :: "env \<Rightarrow> world \<Rightarrow> body \<Rightarrow> (world \<times> outcome) option" where
  "post_newURL env w b = run env w (Start b)"

subsection \<open>Requests running side by side\<close>

text \<open>
  Many requests are in flight at once; the event loop runs one of them up to its next
  \<^verbatim>\<open>await\<close>, then any other. A schedule is a list of events: a request arrives, or
  the request at position \<open>i\<close> takes its next step. The theorems about concurrent
  allocation hold for every schedule.
\<close>

datatype event = Arrive body | Step nat

fun sys_step :: "env \<Rightarrow> event \<Rightarrow> world \<times> request list \<Rightarrow> world \<times> request list" where
  "sys_step env (Arrive b) (w, ps) = (w, ps @ [Start b])"
| "sys_step env (Step i) (w, ps) =
     (if i < length ps
      then (fst (step env w (ps ! i)), ps[i := snd (step env w (ps ! i))])
      else (w, ps))"

definition sys_exec ::
  "env \<Rightarrow> event list \<Rightarrow> world \<times> request list \<Rightarrow> world \<times> request list" where
  "sys_exec env evs st = fold (sys_step env) evs st"

text \<open>The requests that were answered with a created document of key \<open>k\<close>.\<close>

fun sent_key :: "jsstring \<Rightarrow> request \<Rightarrow> bool" where
  "sent_key k (Done (Sent d)) = (emojis d = k)"
| "sent_key k _ = False"

section \<open>The \<^verbatim>\<open>GET\<close> routes\<close>

text \<open>\<^verbatim>\<open>GET /\<close>: \<^verbatim>\<open>records.reverse()\<close>.\<close>

definition get_all :: "world \<Rightarrow> doc list" where
  "get_all w = rev (urls w)"

text \<open>
  \<^verbatim>\<open>xs.slice(start)\<close>: a negative start counts from the end, and both ends are
  clamped to the array.
\<close>

definition slice_from :: "int \<Rightarrow> 'a list \<Rightarrow> 'a list" where
  "slice_from start xs =
     (let len = int (length xs);
          k = (if start < 0 then max (len + start) 0 else min start len)
      in drop (nat k) xs)"

text \<open>
  \<^verbatim>\<open>GET /last/:num\<close>: \<^verbatim>\<open>records.slice(-index).reverse()\<close>. The index is a whole
  number here; a parameter that \<^verbatim>\<open>Number\<close> does not read as one is outside the
  model.
\<close>

definition get_last :: "int \<Rightarrow> world \<Rightarrow> doc list" where
  "get_last index w = rev (slice_from (- index) (urls w))"

text \<open>
  \<^verbatim>\<open>GET /:id\<close> (lines 108 to 124): the answer and the world after it. The branch for a
  failing store query (status 500) is outside the model, in which a query always
  answers. The older variant of the service builds the link with \<^verbatim>\<open>http\<close>.
\<close>

datatype reply = Found (emojiURL: jsstring) (redirectURL: "jsstring option") | NotFound nat

definition get_id :: "env \<Rightarrow> world \<Rightarrow> jsstring \<Rightarrow> world \<times> reply" where
  "get_id env w ident =
     (case findOne ident w of
        Some d \<Rightarrow> (w, Found (ascii ''https://'' @ domain env @ ascii ''/'' @ raw d) (url d))
      | None \<Rightarrow> (w, NotFound 404))"

definition get_id_api :: "env \<Rightarrow> world \<Rightarrow> jsstring \<Rightarrow> world \<times> reply" where
  "get_id_api env w ident =
     (case findOne ident w of
        Some d \<Rightarrow> (w, Found (ascii ''http://'' @ domain env @ ascii ''/'' @ raw d) (url d))
      | None \<Rightarrow> (w, NotFound 404))"

section \<open>The older variant: \<^verbatim>\<open>src/api.js\<close>\<close>

text \<open>
  In \<^verbatim>\<open>src/api.js\<close> the function \<^verbatim>\<open>keyExists\<close> is not \<^verbatim>\<open>async\<close> and has no
  \<^verbatim>\<open>return\<close>: it starts the query, attaches the callback that computes the boolean,
  and falls off its end. The value of the call is \<^verbatim>\<open>undefined\<close>.
\<close>

datatype jsval = Undefined | Boolean bool

fun truthy :: "jsval \<Rightarrow> bool" where
  "truthy Undefined = False"
| "truthy (Boolean b) = b"

definition keyExists_api :: "world \<Rightarrow> jsstring \<Rightarrow> jsval" where
  "keyExists_api w key =
     (let promise = (case findOne key w of Some d \<Rightarrow> Boolean True | None \<Rightarrow> Boolean False)
      in Undefined)"

text \<open>
  \<^verbatim>\<open>generateRandomEmojis\<close> of \<^verbatim>\<open>src/api.js\<close> (lines 70 to 82), a synchronous
  \<^verbatim>\<open>do ... while (exists)\<close> loop: the world after it and the slug it returns, or the
  error of the encoder.
\<close>

partial_function (option) generateRandomEmojis_api ::
  "env \<Rightarrow> world \<Rightarrow> (world \<times> (error + jsstring)) option" where
  "generateRandomEmojis_api env w =
     (case encode (five_emojis env (drawn w)) of
        None \<Rightarrow> Some (w\<lparr>drawn := drawn w + 5\<rparr>, Inl overflowError)
      | Some key \<Rightarrow>
          if truthy (keyExists_api (w\<lparr>drawn := drawn w + 5\<rparr>) key)
          then generateRandomEmojis_api env (w\<lparr>drawn := drawn w + 5\<rparr>)
          else Some (w\<lparr>drawn := drawn w + 5\<rparr>, Inr (five_emojis env (drawn w))))"

section \<open>Concrete surroundings for the examples\<close>

text \<open>
  The examples below run the program on explicit inputs. They use a random generator
  that hands out ten animal emoji in turn (U+1F431 to U+1F43A), the domain
  \<^verbatim>\<open>localhost\<close> and, in place of the library's URL pattern, a test that accepts the
  strings starting with \<^verbatim>\<open>https://\<close> and going on after it; on the URLs of the
  examples it decides as the pattern does.
\<close>

definition example_isUrl :: "jsstring \<Rightarrow> bool" where
  "example_isUrl u = (take 8 u = ascii ''https://'' \<and> 8 < length u)"

definition example_random :: "nat \<Rightarrow> jsstring" where
  "example_random i = [0xD83D, 0xDC31 + i mod 10]"

definition example_env :: env where
  "example_env =
     \<lparr>isUrl = example_isUrl, nodeEmoji_random = example_random, domain = ascii ''localhost''\<rparr>"

definition empty_world :: world where
  "empty_world = \<lparr>urls = [], drawn = 0\<rparr>"

text \<open>
  The slug of three emoji (cat, dog, frog) with two different targets, and a schedule on
  which two requests arrive and then take their steps in turn.
\<close>

definition cat_dog_frog :: jsstring where
  "cat_dog_frog = [0xD83D, 0xDC31, 0xD83D, 0xDC36, 0xD83D, 0xDC38]"

definition body_a :: body where
  "body_a = \<lparr>body_emojis = Some cat_dog_frog, body_url = Some (ascii ''https://a.com'')\<rparr>"

definition body_b :: body where
  "body_b = \<lparr>body_emojis = Some cat_dog_frog, body_url = Some (ascii ''https://b.com'')\<rparr>"

definition doc_a :: doc where
  "doc_a = \<lparr>emojis = ascii ''5o8hkag'', url = Some (ascii ''https://a.com''), raw = cat_dog_frog\<rparr>"

text \<open>A store that already holds the key of the first five emoji of the generator.\<close>

definition doc_first :: doc where
  "doc_first =
     \<lparr>emojis = ascii ''5o8hcdef'', url = Some (ascii ''https://b.com''),
      raw = [0xD83D, 0xDC31, 0xD83D, 0xDC32, 0xD83D, 0xDC33, 0xD83D, 0xDC34, 0xD83D, 0xDC35]\<rparr>"

definition doc_second :: doc where
  "doc_second =
     \<lparr>emojis = ascii ''bp8hcdef'', url = Some (ascii ''https://a.com''),
      raw = [0xD83D, 0xDC36, 0xD83D, 0xDC37, 0xD83D, 0xDC38, 0xD83D, 0xDC39, 0xD83D, 0xDC3A]\<rparr>"

definition body_no_slug :: body where
  "body_no_slug = \<lparr>body_emojis = None, body_url = Some (ascii ''https://a.com'')\<rparr>"

definition race_schedule :: "event list" where
  "race_schedule = [Arrive body_a, Arrive body_b, Step 0, Step 1, Step 0, Step 1, Step 0, Step 1]"

section \<open>Conditions on a request body\<close>


definition no_slug :: "body \<Rightarrow> bool" where
  "no_slug b = (case body_emojis b of None \<Rightarrow> True | Some s \<Rightarrow> s = [])"

section \<open>Invariants of the store\<close>

text \<open>
  \<open>keys_canonical w\<close>: the key of every stored document is the encoding of its raw slug.
  \<open>request_consistent p\<close>: the same for the key and the slug that a request in flight
  carries.
\<close>

definition keys_canonical :: "world \<Rightarrow> bool" where
  "keys_canonical w = list_all (\<lambda>d. encode (raw d) = Some (emojis d)) (urls w)"

fun request_consistent :: "request \<Rightarrow> bool" where
  "request_consistent (AwaitKeyExists encodedEmojis emojis' url') =
     (encode emojis' = Some encodedEmojis)"
| "request_consistent (AwaitInsert d) = (encode (raw d) = Some (emojis d))"
| "request_consistent (Done (Sent d)) = (encode (raw d) = Some (emojis d))"
| "request_consistent _ = True"

section \<open>Facts about the encoder\<close>

lemma encode_digits_nonempty: "encode_digits bias q k \<noteq> []"
  by (subst encode_digits.simps) (simp add: Let_def)

lemma encode_pass_grows:
  "encode_pass n hp bl input (delta, bias, h, out) = Some (delta', bias', h', out')
   \<Longrightarrow> length out \<le> length out' \<and> (n \<in> set input \<longrightarrow> length out < length out')"
proof (induction input arbitrary: delta bias h out)
  case Nil
  then show ?case by simp
next
  case (Cons c cs)
  show ?case
  proof (cases "c = n")
    case True
    with Cons.prems have
      "encode_pass n hp bl cs (0, adapt delta hp (h = bl), h + 1, out @ encode_digits bias delta base)
         = Some (delta', bias', h', out')"
      by (simp add: Let_def split: if_splits)
    from Cons.IH [OF this]
    have "length out + length (encode_digits bias delta base) \<le> length out'"
      by simp
    moreover have "0 < length (encode_digits bias delta base)"
      using encode_digits_nonempty [of bias delta base] by simp
    ultimately have "length out < length out'" by linarith
    then show ?thesis by simp
  next
    case False
    with Cons.prems have
      "encode_pass n hp bl cs ((if c < n then delta + 1 else delta), bias, h, out)
         = Some (delta', bias', h', out')"
      by (simp add: Let_def split: if_splits)
    from Cons.IH [OF this] False show ?thesis by auto
  qed
qed

lemma encode_main_nonempty:
  "encode_main input bl ms (n, delta, bias, h, out) = Some out'
   \<Longrightarrow> set ms \<subseteq> set input \<Longrightarrow> out \<noteq> [] \<or> ms \<noteq> [] \<Longrightarrow> out' \<noteq> []"
proof (induction ms arbitrary: n delta bias h out)
  case Nil
  then show ?case by simp
next
  case (Cons m ms)
  from Cons.prems(1) obtain d1 b1 h1 o1 where
    pass: "encode_pass m (h + 1) bl input (delta + (m - n) * (h + 1), bias, h, out)
             = Some (d1, b1, h1, o1)"
    and rest: "encode_main input bl ms (m + 1, d1 + 1, b1, h1, o1) = Some out'"
    by (auto split: if_splits option.splits)
  from Cons.prems(2) have "m \<in> set input" by simp
  with encode_pass_grows [OF pass] have "o1 \<noteq> []" by auto
  with Cons.IH [OF rest] Cons.prems(2) show ?case by simp
qed

lemma ucs2decode_nonempty: "s \<noteq> [] \<Longrightarrow> ucs2decode s \<noteq> []"
  by (induction s rule: ucs2decode.induct) auto

text \<open>The key of a non-empty slug is not empty.\<close>

lemma encode_nonempty:
  assumes "encode s = Some k" and "s \<noteq> []"
  shows "k \<noteq> []"
proof -
  let ?input = "ucs2decode s"
  let ?basic = "filter (\<lambda>c. c < 0x80) ?input"
  let ?ms = "sort (remdups (filter (\<lambda>c. initialN \<le> c) ?input))"
  let ?out = "if length ?basic \<noteq> 0 then ?basic @ [delimiter] else ?basic"
  from assms(1) have e:
    "encode_main ?input (length ?basic) ?ms (initialN, 0, initialBias, length ?basic, ?out) = Some k"
    by (simp add: encode_def Let_def)
  have sub: "set ?ms \<subseteq> set ?input" by auto
  have "?out \<noteq> [] \<or> ?ms \<noteq> []"
  proof (cases "?basic = []")
    case True
    then have "\<forall>c\<in>set ?input. \<not> c < 0x80" by (simp add: filter_empty_conv)
    then have "filter (\<lambda>c. initialN \<le> c) ?input = ?input"
      by (auto simp: filter_id_conv)
    moreover have "?input \<noteq> []" using assms(2) by (rule ucs2decode_nonempty)
    ultimately have "set ?ms = set ?input" "set ?input \<noteq> {}" by simp_all
    then have "?ms \<noteq> []" by (metis set_empty)
    then show ?thesis by simp
  next
    case False
    then show ?thesis by simp
  qed
  from encode_main_nonempty [OF e sub this] show ?thesis .
qed

lemma ucs2decode_basic: "\<forall>c\<in>set s. c < 0x80 \<Longrightarrow> ucs2decode s = s"
  by (induction s rule: ucs2decode.induct) auto

text \<open>A slug of ASCII characters only is encoded as itself followed by a hyphen.\<close>

lemma encode_basic:
  assumes "\<forall>c\<in>set s. c < 0x80" and "s \<noteq> []"
  shows "encode s = Some (s @ [delimiter])"
proof -
  have "filter (\<lambda>c. c < 0x80) s = s" using assms(1) by (simp add: filter_id_conv)
  moreover have "filter (\<lambda>c. initialN \<le> c) s = []" using assms(1) by (auto simp: filter_empty_conv)
  ultimately show ?thesis using assms(2)
    by (simp add: encode_def Let_def ucs2decode_basic [OF assms(1)])
qed

text \<open>The keys of the slugs used in the examples.\<close>

lemmas puny_eval = encode_def Let_def adapt_def adapt_loop.simps encode_digits.simps
  digitToBasic_def numeral_2_eq_2 [symmetric]

lemma encode_abc: "encode (ascii ''abc'') = Some (ascii ''abc-'')"
  by (simp add: puny_eval ascii_def)

lemma encode_bang_cat: "encode [33, 0xD83D, 0xDC31] = Some (ascii ''!-232s'')"
  by (simp add: puny_eval ascii_def)

lemma encode_cat_dog_frog:
  "encode [0xD83D, 0xDC31, 0xD83D, 0xDC36, 0xD83D, 0xDC38] = Some (ascii ''5o8hkag'')"
  by (simp add: puny_eval ascii_def)

lemma encode_cdf: "encode cat_dog_frog = Some (ascii ''5o8hkag'')"
  by (simp add: cat_dog_frog_def encode_cat_dog_frog)

lemma five_emojis_0:
  "five_emojis example_env 0 =
     [0xD83D, 0xDC31, 0xD83D, 0xDC32, 0xD83D, 0xDC33, 0xD83D, 0xDC34, 0xD83D, 0xDC35]"
  by (simp add: five_emojis_def example_env_def example_random_def upt_rec)

lemma five_emojis_5:
  "five_emojis example_env 5 =
     [0xD83D, 0xDC36, 0xD83D, 0xDC37, 0xD83D, 0xDC38, 0xD83D, 0xDC39, 0xD83D, 0xDC3A]"
  by (simp add: five_emojis_def example_env_def example_random_def upt_rec)

lemma encode_first_five:
  "encode [0xD83D, 0xDC31, 0xD83D, 0xDC32, 0xD83D, 0xDC33, 0xD83D, 0xDC34, 0xD83D, 0xDC35]
     = Some (ascii ''5o8hcdef'')"
  by (simp add: puny_eval ascii_def)

lemma encode_second_five:
  "encode [0xD83D, 0xDC36, 0xD83D, 0xDC37, 0xD83D, 0xDC38, 0xD83D, 0xDC39, 0xD83D, 0xDC3A]
     = Some (ascii ''bp8hcdef'')"
  by (simp add: puny_eval ascii_def)

section \<open>Facts about the store, the schema and the error handler\<close>

lemma findOne_Some: "findOne k w = Some d \<Longrightarrow> d \<in> set (urls w) \<and> emojis d = k"
  by (auto simp: findOne_def find_Some_iff)

lemma findOne_None: "findOne k w = None \<longleftrightarrow> k \<notin> set (map emojis (urls w))"
  by (auto simp: findOne_def find_None_iff)

lemma keyExists_iff: "keyExists w k \<longleftrightarrow> k \<in> set (map emojis (urls w))"
  using findOne_None [of k w] by (cases "findOne k w") (simp_all add: keyExists_def)

lemma keyExists_drawn: "keyExists (w\<lparr>drawn := n\<rparr>) k = keyExists w k"
  by (simp add: keyExists_def findOne_def)

lemma find_unique:
  "distinct (map f xs) \<Longrightarrow> d \<in> set xs \<Longrightarrow> find (\<lambda>x. f x = f d) xs = Some d"
proof (induction xs)
  case Nil
  then show ?case by simp
next
  case (Cons a xs)
  then show ?case by (cases "a = d") (auto simp: image_iff)
qed

lemma slice_from_neg: "0 < n \<Longrightarrow> slice_from (- n) xs = drop (length xs - nat n) xs"
proof -
  assume n: "0 < n"
  have "nat (max (int (length xs) - n) 0) = length xs - nat n" using n by linarith
  then show ?thesis using n by (simp add: slice_from_def Let_def)
qed

text \<open>The validated object has no property \<open>emojis\<close>, so only the target is tested.\<close>

lemma validate_only_url:
  "recordSchema_validate env ((\<lambda>property. None)(''encodedEmojis'' := e, ''url'' := u))
     = map_option ValidationError (url_schema env u)"
  by (simp add: recordSchema_validate_def emojis_schema_def split: option.splits)

lemma validate_and_branch_eq:
  "validate_and_branch env e s u =
     (case url_schema env u of
        Some msg \<Rightarrow> Done (Failed (ValidationError msg))
      | None \<Rightarrow>
          (case e of
             None \<Rightarrow> AwaitGenerate u
           | Some k \<Rightarrow> if k = [] then AwaitGenerate u else AwaitKeyExists k s u))"
  unfolding validate_and_branch_def validate_only_url
  by (simp split: option.splits)


lemma status_exists: "error_status (new_Error existsErrorMessage) = 444"
  by (simp add: error_status_def new_Error_def)

lemma status_emoji: "error_status (new_Error emojiErrorMessage) = 555"
  by (simp add: error_status_def new_Error_def existsErrorMessage_def emojiErrorMessage_def ascii_def)

lemma status_duplicate: "error_status duplicateKeyError = 500"
  by (simp add: error_status_def duplicateKeyError_def existsErrorMessage_def emojiErrorMessage_def ascii_def)

lemma example_url_ok: "url_schema example_env (Some (ascii ''https://a.com'')) = None"
  by (simp add: url_schema_def example_env_def example_isUrl_def trim_def isWhiteSpace_def ascii_def)

lemma example_url_b_ok: "url_schema example_env (Some (ascii ''https://b.com'')) = None"
  by (simp add: url_schema_def example_env_def example_isUrl_def trim_def isWhiteSpace_def ascii_def)


section \<open>Facts about a single request\<close>

lemma run_Done: "run env w (Done r) = Some (w, r)"
  by (subst run.simps) simp

lemma run_unfold: "finished p = None \<Longrightarrow> run env w p = run env (fst (step env w p)) (snd (step env w p))"
  by (subst run.simps) simp

lemma run_Start: "run env w (Start b) = run env w (start_request env b)"
  by (simp add: run_unfold)

lemma run_AwaitKeyExists:
  "run env w (AwaitKeyExists k e u) =
     (if keyExists w k then Some (w, Failed (new_Error existsErrorMessage))
      else run env w (check_slug k e u))"
  by (simp add: run_unfold run_Done)

lemma run_AwaitInsert:
  "run env w (AwaitInsert d) =
     (case urls_insert d w of
        Inl err \<Rightarrow> Some (w, Failed err)
      | Inr w' \<Rightarrow> Some (w', Sent d))"
  by (simp add: run_unfold run_Done split: sum.splits)

lemma run_AwaitGenerate:
  "run env w (AwaitGenerate u) =
     run env (fst (generate_round env w u)) (snd (generate_round env w u))"
  by (simp add: run_unfold)

lemma run_check_slug:
  "run env w (check_slug k e u) =
     (if slice_0_minus1 k = e then Some (w, Failed (new_Error emojiErrorMessage))
      else case urls_insert \<lparr>emojis = k, url = u, raw = e\<rparr> w of
             Inl err \<Rightarrow> Some (w, Failed err)
           | Inr w' \<Rightarrow> Some (w', Sent \<lparr>emojis = k, url = u, raw = e\<rparr>))"
  by (simp add: check_slug_def run_Done run_AwaitInsert)


lemma start_request_slug:
  assumes "body_emojis b = Some s" "s \<noteq> []" "encode s = Some k"
    "url_schema env (body_url b) = None"
  shows "start_request env b = AwaitKeyExists k s (body_url b)"
  using assms encode_nonempty [of s k]
  by (simp add: start_request_def validate_and_branch_eq)

lemma start_request_no_slug:
  "no_slug b \<Longrightarrow> url_schema env (body_url b) = None \<Longrightarrow> start_request env b = AwaitGenerate (body_url b)"
  by (simp add: no_slug_def start_request_def validate_and_branch_eq split: option.splits)

lemma start_request_not_sent: "start_request env b \<noteq> Done (Sent d)"
  by (simp add: start_request_def validate_and_branch_eq split: option.splits)

lemma check_slug_not_sent: "check_slug k e u \<noteq> Done (Sent d)"
  by (simp add: check_slug_def)

lemma generate_round_cases:
  "urls (fst (generate_round env w u)) = urls w \<and> snd (generate_round env w u) \<noteq> Done (Sent d)"
  by (simp add: generate_round_def Let_def keyExists_def findOne_def check_slug_not_sent
      split: option.splits)

text \<open>
  A step leaves the collection as it is and answers no request with a document, or it is
  the insert of a document with a fresh key.
\<close>

lemma step_cases:
  "(urls (fst (step env w p)) = urls w
      \<and> (\<forall>d. snd (step env w p) = Done (Sent d) \<longrightarrow> p = Done (Sent d)))
   \<or> (\<exists>d. p = AwaitInsert d \<and> emojis d \<notin> set (map emojis (urls w))
          \<and> urls (fst (step env w p)) = urls w @ [d] \<and> snd (step env w p) = Done (Sent d))"
proof (cases p)
  case (Start b)
  then show ?thesis by (simp add: start_request_not_sent)
next
  case (AwaitKeyExists k e u)
  then show ?thesis by (simp add: check_slug_not_sent)
next
  case (AwaitGenerate u)
  then show ?thesis using generate_round_cases [of env w u] by simp
next
  case (AwaitInsert d)
  then show ?thesis by (simp add: urls_insert_def)
next
  case (Done r)
  then show ?thesis by simp
qed

lemma start_request_consistent: "request_consistent (start_request env b)"
  by (simp add: start_request_def validate_and_branch_eq split: option.splits)

lemma check_slug_consistent:
  "encode e = Some k \<Longrightarrow> request_consistent (check_slug k e u)"
  by (simp add: check_slug_def)

lemma generate_round_consistent: "request_consistent (snd (generate_round env w u))"
  by (simp add: generate_round_def Let_def check_slug_consistent split: option.splits)

lemma step_consistent:
  assumes "keys_canonical w" and "request_consistent p"
  shows "keys_canonical (fst (step env w p)) \<and> request_consistent (snd (step env w p))"
proof (cases p)
  case (Start b)
  then show ?thesis using assms by (simp add: start_request_consistent)
next
  case (AwaitKeyExists k e u)
  then show ?thesis using assms by (simp add: check_slug_consistent)
next
  case (AwaitGenerate u)
  then show ?thesis using assms generate_round_cases [of env w u] generate_round_consistent [of env w u]
    by (simp add: keys_canonical_def)
next
  case (AwaitInsert d)
  then show ?thesis using assms by (simp add: urls_insert_def keys_canonical_def)
next
  case (Done r)
  then show ?thesis using assms by simp
qed

text \<open>Partial correctness of a run, by the fixed-point induction of \<open>run\<close>.\<close>

lemma run_consistent:
  assumes r: "run env w p = Some res"
  shows "keys_canonical w \<longrightarrow> request_consistent p \<longrightarrow>
           keys_canonical (fst res) \<and> request_consistent (Done (snd res))"
proof (rule run.raw_induct [where P = "\<lambda>env w p res. keys_canonical w \<longrightarrow> request_consistent p \<longrightarrow>
           keys_canonical (fst res) \<and> request_consistent (Done (snd res))", OF _ r])
  fix run' :: "env \<Rightarrow> world \<Rightarrow> request \<Rightarrow> (world \<times> outcome) option"
  fix env w p res
  assume IH: "\<And>env w p res. run' env w p = Some res \<Longrightarrow>
      keys_canonical w \<longrightarrow> request_consistent p \<longrightarrow>
           keys_canonical (fst res) \<and> request_consistent (Done (snd res))"
    and eq: "(case finished p of
                None \<Rightarrow> run' env (fst (step env w p)) (snd (step env w p))
              | Some r \<Rightarrow> Some (w, r)) = Some res"
  show "keys_canonical w \<longrightarrow> request_consistent p \<longrightarrow>
           keys_canonical (fst res) \<and> request_consistent (Done (snd res))"
  proof (cases "finished p")
    case None
    with eq have "run' env (fst (step env w p)) (snd (step env w p)) = Some res" by simp
    from IH [OF this] step_consistent [of w p env] show ?thesis by blast
  next
    case (Some r)
    then have "p = Done r" by (cases p) simp_all
    with eq Some show ?thesis by auto
  qed
qed

lemma run_sent:
  assumes r: "run env w p = Some res"
  shows "\<forall>d. snd res = Sent d \<longrightarrow>
           (p = Done (Sent d) \<and> fst res = w)
           \<or> (urls (fst res) = urls w @ [d] \<and> emojis d \<notin> set (map emojis (urls w))
              \<and> (\<forall>d'. p \<noteq> Done (Sent d')))"
proof (rule run.raw_induct [where P = "\<lambda>env w p res. \<forall>d. snd res = Sent d \<longrightarrow>
           (p = Done (Sent d) \<and> fst res = w)
           \<or> (urls (fst res) = urls w @ [d] \<and> emojis d \<notin> set (map emojis (urls w))
              \<and> (\<forall>d'. p \<noteq> Done (Sent d')))", OF _ r])
  fix run' :: "env \<Rightarrow> world \<Rightarrow> request \<Rightarrow> (world \<times> outcome) option"
  fix env w p res
  assume IH: "\<And>env w p res. run' env w p = Some res \<Longrightarrow>
      \<forall>d. snd res = Sent d \<longrightarrow>
           (p = Done (Sent d) \<and> fst res = w)
           \<or> (urls (fst res) = urls w @ [d] \<and> emojis d \<notin> set (map emojis (urls w))
              \<and> (\<forall>d'. p \<noteq> Done (Sent d')))"
    and eq: "(case finished p of
                None \<Rightarrow> run' env (fst (step env w p)) (snd (step env w p))
              | Some r \<Rightarrow> Some (w, r)) = Some res"
  show "\<forall>d. snd res = Sent d \<longrightarrow>
           (p = Done (Sent d) \<and> fst res = w)
           \<or> (urls (fst res) = urls w @ [d] \<and> emojis d \<notin> set (map emojis (urls w))
              \<and> (\<forall>d'. p \<noteq> Done (Sent d')))"
  proof (cases "finished p")
    case None
    then have nd: "\<forall>r. p \<noteq> Done r" by (cases p) simp_all
    from None eq have "run' env (fst (step env w p)) (snd (step env w p)) = Some res" by simp
    note ih = IH [OF this]
    show ?thesis
    proof (intro allI impI)
      fix d
      assume sd: "snd res = Sent d"
      from step_cases [of env w p] show "(p = Done (Sent d) \<and> fst res = w)
           \<or> (urls (fst res) = urls w @ [d] \<and> emojis d \<notin> set (map emojis (urls w))
              \<and> (\<forall>d'. p \<noteq> Done (Sent d')))"
      proof (elim disjE exE conjE)
        assume u: "urls (fst (step env w p)) = urls w"
          and s: "\<forall>d. snd (step env w p) = Done (Sent d) \<longrightarrow> p = Done (Sent d)"
        from s nd have "\<forall>d'. snd (step env w p) \<noteq> Done (Sent d')" by blast
        with ih sd u nd show ?thesis by auto
      next
        fix d'
        assume a: "p = AwaitInsert d'" "emojis d' \<notin> set (map emojis (urls w))"
          "urls (fst (step env w p)) = urls w @ [d']" "snd (step env w p) = Done (Sent d')"
        with ih sd have "d' = d \<and> fst res = fst (step env w p)" by auto
        with a show ?thesis by simp
      qed
    qed
  next
    case (Some r)
    then have "p = Done r" by (cases p) simp_all
    with eq Some show ?thesis by auto
  qed
qed

text \<open>The loop of the generator: rounds that collide, and the round that does not.\<close>

lemma generate_round_collision:
  assumes "encode (candidate env w 0) = Some k" and "keyExists w k"
  shows "generate_round env w u = (w\<lparr>drawn := drawn w + 5\<rparr>, AwaitGenerate u)"
  using assms by (simp add: generate_round_def candidate_def Let_def keyExists_def findOne_def)

lemma generate_round_free:
  assumes "encode (candidate env w 0) = Some k" and "\<not> keyExists w k"
  shows "generate_round env w u
           = (w\<lparr>drawn := drawn w + 5\<rparr>, check_slug k (candidate env w 0) u)"
  using assms by (simp add: generate_round_def candidate_def Let_def keyExists_def findOne_def)

lemma candidate_shift: "candidate env (w\<lparr>drawn := drawn w + 5\<rparr>) i = candidate env w (Suc i)"
  by (simp add: candidate_def add.assoc)

lemma generate_loop:
  "\<forall>i<j. \<exists>k. encode (candidate env w i) = Some k \<and> keyExists w k \<Longrightarrow>
     run env w (AwaitGenerate u) = run env (w\<lparr>drawn := drawn w + 5 * j\<rparr>) (AwaitGenerate u)"
proof (induction j arbitrary: w)
  case 0
  then show ?case by simp
next
  case (Suc j)
  from Suc.prems obtain k where k: "encode (candidate env w 0) = Some k" "keyExists w k" by auto
  let ?w1 = "w\<lparr>drawn := drawn w + 5\<rparr>"
  have "\<forall>i<j. \<exists>k. encode (candidate env ?w1 i) = Some k \<and> keyExists ?w1 k"
    using Suc.prems by (simp add: candidate_shift keyExists_drawn)
  from Suc.IH [OF this] show ?case
    by (simp add: run_AwaitGenerate generate_round_collision [OF k] add.assoc)
qed

lemma generate_never_ends_aux:
  assumes r: "run env w p = Some res"
  shows "\<forall>u. p = AwaitGenerate u \<longrightarrow>
          \<not> (\<forall>i. \<exists>k. encode (candidate env w i) = Some k \<and> keyExists w k)"
proof (rule run.raw_induct [where P = "\<lambda>env w p res. \<forall>u. p = AwaitGenerate u \<longrightarrow>
          \<not> (\<forall>i. \<exists>k. encode (candidate env w i) = Some k \<and> keyExists w k)", OF _ r])
  fix run' :: "env \<Rightarrow> world \<Rightarrow> request \<Rightarrow> (world \<times> outcome) option"
  fix env w p res
  assume IH: "\<And>env w p res. run' env w p = Some res \<Longrightarrow>
      \<forall>u. p = AwaitGenerate u \<longrightarrow>
          \<not> (\<forall>i. \<exists>k. encode (candidate env w i) = Some k \<and> keyExists w k)"
    and eq: "(case finished p of
                None \<Rightarrow> run' env (fst (step env w p)) (snd (step env w p))
              | Some r \<Rightarrow> Some (w, r)) = Some res"
  show "\<forall>u. p = AwaitGenerate u \<longrightarrow>
          \<not> (\<forall>i. \<exists>k. encode (candidate env w i) = Some k \<and> keyExists w k)"
  proof (intro allI impI notI)
    fix u
    assume p: "p = AwaitGenerate u"
      and all: "\<forall>i. \<exists>k. encode (candidate env w i) = Some k \<and> keyExists w k"
    then obtain k where k: "encode (candidate env w 0) = Some k" "keyExists w k" by blast
    let ?w1 = "w\<lparr>drawn := drawn w + 5\<rparr>"
    from eq p have "run' env ?w1 (AwaitGenerate u) = Some res"
      by (simp add: generate_round_collision [OF k])
    from IH [OF this] have
      "\<not> (\<forall>i. \<exists>k. encode (candidate env ?w1 i) = Some k \<and> keyExists ?w1 k)" by simp
    with all show False by (simp add: candidate_shift keyExists_drawn)
  qed
qed

text \<open>When every candidate collides, the loop of the generator never ends.\<close>

lemma generate_never_ends:
  assumes "\<forall>i. \<exists>k. encode (candidate env w i) = Some k \<and> keyExists w k"
  shows "run env w (AwaitGenerate u) = None"
proof (cases "run env w (AwaitGenerate u)")
  case None
  then show ?thesis .
next
  case (Some res)
  from generate_never_ends_aux [OF Some] assms show ?thesis by simp
qed

section \<open>Facts about requests running side by side\<close>

lemma filter_update_length:
  "i < length xs \<Longrightarrow>
     length (filter P (xs[i := y])) + (if P (xs ! i) then 1 else 0)
       = length (filter P xs) + (if P y then 1 else 0)"
proof (induction xs arbitrary: i)
  case Nil
  then show ?case by simp
next
  case (Cons x xs)
  then show ?case by (cases i) auto
qed

lemma sent_key_iff: "sent_key k p \<longleftrightarrow> (\<exists>d. p = Done (Sent d) \<and> emojis d = k)"
  by (cases "(k, p)" rule: sent_key.cases) auto

lemma step_count:
  "(if sent_key k (snd (step env w p)) then 1 else 0)
       + length (filter (\<lambda>d. emojis d = k) (urls w))
     \<le> (if sent_key k p then (1::nat) else 0)
       + length (filter (\<lambda>d. emojis d = k) (urls (fst (step env w p))))"
  using step_cases [of env w p]
proof (elim disjE exE conjE)
  assume u: "urls (fst (step env w p)) = urls w"
    and s: "\<forall>d. snd (step env w p) = Done (Sent d) \<longrightarrow> p = Done (Sent d)"
  have "sent_key k (snd (step env w p)) \<longrightarrow> sent_key k p"
  proof
    assume "sent_key k (snd (step env w p))"
    then obtain d where "snd (step env w p) = Done (Sent d)"
      by (auto simp: sent_key_iff)
    with s have "p = Done (Sent d)" by simp
    then show "sent_key k p" using \<open>sent_key k (snd (step env w p))\<close> by simp
  qed
  with u show ?thesis by simp
next
  fix d
  assume "p = AwaitInsert d" "urls (fst (step env w p)) = urls w @ [d]"
    "snd (step env w p) = Done (Sent d)"
  then show ?thesis by simp
qed

lemma sys_step_count:
  "length (filter (sent_key k) (snd (sys_step env ev (w, ps))))
       + length (filter (\<lambda>d. emojis d = k) (urls w))
     \<le> length (filter (sent_key k) ps)
       + length (filter (\<lambda>d. emojis d = k) (urls (fst (sys_step env ev (w, ps)))))"
proof (cases ev)
  case (Arrive b)
  then show ?thesis by simp
next
  case (Step i)
  show ?thesis
  proof (cases "i < length ps")
    case True
    from filter_update_length [OF True, of "sent_key k" "snd (step env w (ps ! i))"]
      step_count [of k env w "ps ! i"]
    show ?thesis using Step True by (simp split: if_splits)
  next
    case False
    then show ?thesis using Step by simp
  qed
qed

lemma sys_step_store:
  assumes "distinct (map emojis (urls w))"
  shows "distinct (map emojis (urls (fst (sys_step env ev (w, ps)))))
     \<and> prefix (urls w) (urls (fst (sys_step env ev (w, ps))))"
proof (cases ev)
  case (Arrive b)
  then show ?thesis using assms by simp
next
  case (Step i)
  then show ?thesis using assms step_cases [of env w "ps ! i"] by auto
qed

lemma sys_exec_Cons:
  "sys_exec env (ev # evs) (w, ps)
     = sys_exec env evs (fst (sys_step env ev (w, ps)), snd (sys_step env ev (w, ps)))"
  by (simp add: sys_exec_def)

lemma sys_exec_Nil: "sys_exec env [] st = st"
  by (simp add: sys_exec_def)

lemma sys_exec_invariant:
  "distinct (map emojis (urls w)) \<Longrightarrow>
     distinct (map emojis (urls (fst (sys_exec env evs (w, ps)))))
     \<and> prefix (urls w) (urls (fst (sys_exec env evs (w, ps))))
     \<and> length (filter (sent_key k) (snd (sys_exec env evs (w, ps))))
          + length (filter (\<lambda>d. emojis d = k) (urls w))
        \<le> length (filter (sent_key k) ps)
          + length (filter (\<lambda>d. emojis d = k) (urls (fst (sys_exec env evs (w, ps)))))"
proof (induction evs arbitrary: w ps)
  case Nil
  then show ?case by (simp add: sys_exec_Nil)
next
  case (Cons ev evs)
  let ?w1 = "fst (sys_step env ev (w, ps))" and ?ps1 = "snd (sys_step env ev (w, ps))"
  from sys_step_store [OF Cons.prems, of env ev ps]
  have d1: "distinct (map emojis (urls ?w1))" and p1: "prefix (urls w) (urls ?w1)" by simp_all
  from Cons.IH [OF d1, of ?ps1] sys_step_count [of k env ev w ps] p1
  show ?case by (auto simp: sys_exec_Cons intro: prefix_order.trans)
qed

lemma distinct_count_le1:
  "distinct (map f xs) \<Longrightarrow> length (filter (\<lambda>d. f d = k) xs) \<le> 1"
proof (induction xs)
  case Nil
  then show ?case by simp
next
  case (Cons a xs)
  show ?case
  proof (cases "f a = k")
    case True
    with Cons.prems have "k \<notin> f ` set xs" by simp
    then have "filter (\<lambda>d. f d = k) xs = []" by (auto simp: filter_empty_conv)
    with True show ?thesis by simp
  next
    case False
    with Cons show ?thesis by simp
  qed
qed

lemma filter_key_pos:
  "k \<in> set (map f xs) \<Longrightarrow> 0 < length (filter (\<lambda>d. f d = k) xs)"
  by (induction xs) auto

lemma sys_step_consistent:
  assumes "keys_canonical w" and "list_all request_consistent ps"
  shows "keys_canonical (fst (sys_step env ev (w, ps)))
       \<and> list_all request_consistent (snd (sys_step env ev (w, ps)))"
proof (cases ev)
  case (Arrive b)
  then show ?thesis using assms by simp
next
  case (Step i)
  show ?thesis
  proof (cases "i < length ps")
    case True
    with assms(2) have "request_consistent (ps ! i)" by (simp add: list_all_length)
    from step_consistent [OF assms(1) this, of env] assms(2) Step True
    show ?thesis
      using set_update_subset_insert [of ps i "snd (step env w (ps ! i))"]
      by (auto simp: list_all_iff)
  next
    case False
    then show ?thesis using Step assms by simp
  qed
qed

lemma sys_exec_consistent:
  "keys_canonical w \<Longrightarrow> list_all request_consistent ps \<Longrightarrow>
     keys_canonical (fst (sys_exec env evs (w, ps)))
     \<and> list_all request_consistent (snd (sys_exec env evs (w, ps)))"
proof (induction evs arbitrary: w ps)
  case Nil
  then show ?case by (simp add: sys_exec_Nil)
next
  case (Cons ev evs)
  obtain w1 ps1 where st: "sys_step env ev (w, ps) = (w1, ps1)"
    by (cases "sys_step env ev (w, ps)")
  with sys_step_consistent [OF Cons.prems, of env ev]
  have "keys_canonical w1" "list_all request_consistent ps1" by simp_all
  from Cons.IH [OF this] show ?case by (simp add: sys_exec_Cons st)
qed

text \<open>The two racing requests of the example: the first wins, the second loses at the insert.\<close>

lemma start_body_a:
  "start_request example_env body_a
     = AwaitKeyExists (ascii ''5o8hkag'') cat_dog_frog (Some (ascii ''https://a.com''))"
  by (simp add: start_request_def body_a_def validate_and_branch_eq encode_cdf example_url_ok)
     (simp add: cat_dog_frog_def ascii_def)

lemma start_body_b:
  "start_request example_env body_b
     = AwaitKeyExists (ascii ''5o8hkag'') cat_dog_frog (Some (ascii ''https://b.com''))"
  by (simp add: start_request_def body_b_def validate_and_branch_eq encode_cdf example_url_b_ok)
     (simp add: cat_dog_frog_def ascii_def)

lemma check_cdf:
  "check_slug (ascii ''5o8hkag'') cat_dog_frog u
     = AwaitInsert \<lparr>emojis = ascii ''5o8hkag'', url = u, raw = cat_dog_frog\<rparr>"
  by (simp add: check_slug_def slice_0_minus1_def cat_dog_frog_def ascii_def)

lemma race_example:
  "sys_exec example_env race_schedule (empty_world, [])
     = (\<lparr>urls = [doc_a], drawn = 0\<rparr>, [Done (Sent doc_a), Done (Failed duplicateKeyError)])"
  by (simp add: sys_exec_def race_schedule_def start_body_a start_body_b check_cdf
      keyExists_def findOne_def urls_insert_def empty_world_def doc_a_def)

lemma race_steps:
  "sys_exec example_env [Step 0, Step 1, Step 0, Step 1, Step 0, Step 1]
       (empty_world, [Start body_a, Start body_b])
     = (\<lparr>urls = [doc_a], drawn = 0\<rparr>, [Done (Sent doc_a), Done (Failed duplicateKeyError)])"
  by (simp add: sys_exec_def start_body_a start_body_b check_cdf
      keyExists_def findOne_def urls_insert_def empty_world_def doc_a_def)

lemma resolve_many: "fold (\<lambda>k w'. fst (get_id env w' k)) ks w = w"
  by (induction ks) (simp_all add: get_id_def split: option.splits)

lemma resolve_many_api: "fold (\<lambda>k w'. fst (get_id_api env w' k)) ks w = w"
  by (induction ks) (simp_all add: get_id_api_def split: option.splits)

section \<open>The claims\<close>

subsection \<open>C1: unique keys under racing allocations\<close>

text \<open>
  Claim C1. For every key \<open>k\<close>, at most one stored document has that key at any time,
  also when many allocations race for the same slug. The collection starts with distinct
  keys (the unique index of line 27 is in place) and no request in flight has been
  answered with a document of key \<open>k\<close>. Then, after every schedule of arrivals and
  steps: the keys are still distinct, the documents stored at the start are still there
  in their places (nothing is overwritten), at most one document has key \<open>k\<close>, at most
  one request was answered with a created document of key \<open>k\<close>, and none was when
  \<open>k\<close> was taken from the start.
\<close>

theorem unique_keys_under_races:
  assumes "distinct (map emojis (urls w))"
    and "\<forall>p\<in>set ps. \<not> sent_key k p"
    and "sys_exec env evs (w, ps) = (w', ps')"
  shows "distinct (map emojis (urls w'))
       \<and> prefix (urls w) (urls w')
       \<and> length (filter (\<lambda>d. emojis d = k) (urls w')) \<le> 1
       \<and> length (filter (sent_key k) ps') \<le> 1
       \<and> (k \<in> set (map emojis (urls w)) \<longrightarrow> filter (sent_key k) ps' = [])"
proof -
  from sys_exec_invariant [OF assms(1), of env evs ps k] assms(3)
  have d: "distinct (map emojis (urls w'))" and p: "prefix (urls w) (urls w')"
    and c: "length (filter (sent_key k) ps') + length (filter (\<lambda>d. emojis d = k) (urls w))
              \<le> length (filter (sent_key k) ps) + length (filter (\<lambda>d. emojis d = k) (urls w'))"
    by simp_all
  from assms(2) have "filter (sent_key k) ps = []" by (simp add: filter_empty_conv)
  then have z: "length (filter (sent_key k) ps) = 0" by simp
  from distinct_count_le1 [OF d] have le: "length (filter (\<lambda>d. emojis d = k) (urls w')) \<le> 1" .
  from c z le have one: "length (filter (sent_key k) ps') \<le> 1" by linarith
  have "filter (sent_key k) ps' = []" if "k \<in> set (map emojis (urls w))"
  proof -
    from filter_key_pos [OF that] c z le have "length (filter (sent_key k) ps') = 0" by linarith
    then show ?thesis by simp
  qed
  with d p le one show ?thesis by blast
qed

text \<open>
  The theorem at the race of the example, from the point where both requests have
  arrived: two requests for the slug of cat, dog and frog both pass the check of
  \<^verbatim>\<open>keyExists\<close> on the empty collection; the first insert succeeds, the second is
  refused, and one document is stored.
\<close>

theorem unique_keys_under_races_witness:
  "distinct (map emojis (urls empty_world))
   \<and> \<not> sent_key (ascii ''5o8hkag'') (Start body_a)
   \<and> \<not> sent_key (ascii ''5o8hkag'') (Start body_b)
   \<and> sys_exec example_env [Step 0, Step 1, Step 0, Step 1, Step 0, Step 1]
         (empty_world, [Start body_a, Start body_b])
       = (\<lparr>urls = [doc_a], drawn = 0\<rparr>, [Done (Sent doc_a), Done (Failed duplicateKeyError)])
   \<and> length (filter (sent_key (ascii ''5o8hkag''))
        [Done (Sent doc_a), Done (Failed duplicateKeyError)]) \<le> 1
   \<and> distinct (map emojis (urls \<lparr>urls = [doc_a], drawn = 0\<rparr>))
   \<and> prefix (urls empty_world) (urls \<lparr>urls = [doc_a], drawn = 0\<rparr>)"
  using unique_keys_under_races [of empty_world "[Start body_a, Start body_b]"
      "ascii ''5o8hkag''" example_env "[Step 0, Step 1, Step 0, Step 1, Step 0, Step 1]"
      "\<lparr>urls = [doc_a], drawn = 0\<rparr>" "[Done (Sent doc_a), Done (Failed duplicateKeyError)]"]
    race_steps
  by (simp add: empty_world_def)

subsection \<open>C2: an insert that loses the race\<close>

text \<open>
  The insert path in general: when the insert of an allocation meets a stored document
  with the same key, the request ends with the error of the database, handed to the
  error middleware as it is. Nothing is written, no emoji is drawn, and the request does
  not go on with another key.
\<close>

lemma lost_race_insert:
  assumes "emojis d \<in> set (map emojis (urls w))"
  shows "step env w (AwaitInsert d) = (w, Done (Failed duplicateKeyError))
       \<and> run env w (AwaitInsert d) = Some (w, Failed duplicateKeyError)
       \<and> error_status duplicateKeyError = 500
       \<and> message duplicateKeyError \<noteq> existsErrorMessage"
  using assms
  by (simp add: run_AwaitInsert urls_insert_def status_duplicate)
     (simp add: duplicateKeyError_def existsErrorMessage_def ascii_def)

text \<open>
  Claim C2 does not hold of the code. The claim: when the insert of an allocation fails
  because another allocation has stored the same key first, the failure reaches the
  caller as the error of "already exists" with its own status, and the engine does not
  retry with another key. At the race of the example the second request asked for its
  slug, passed the check of \<^verbatim>\<open>keyExists\<close> and lost the race at the insert: it ends
  with the error of the database, which is not the error of "already exists", and the
  response has the default status 500. The handler answers the same condition on its
  other path as the claim says: the same body sent once the document is stored is
  stopped by \<^verbatim>\<open>keyExists\<close> (lines 141 to 145) with the error of "already exists" and
  status 444. In both cases one document is stored and no emoji is drawn: there is no
  retry with another key.
\<close>

theorem lost_race_leaks_database_error:
  "sys_exec example_env race_schedule (empty_world, [])
     = (\<lparr>urls = [doc_a], drawn = 0\<rparr>, [Done (Sent doc_a), Done (Failed duplicateKeyError)])
   \<and> duplicateKeyError \<noteq> new_Error existsErrorMessage
   \<and> error_status duplicateKeyError = 500
   \<and> post_newURL example_env \<lparr>urls = [doc_a], drawn = 0\<rparr> body_b
       = Some (\<lparr>urls = [doc_a], drawn = 0\<rparr>, Failed (new_Error existsErrorMessage))
   \<and> error_status (new_Error existsErrorMessage) = 444"
proof -
  have d: "duplicateKeyError \<noteq> new_Error existsErrorMessage"
    by (simp add: duplicateKeyError_def new_Error_def)
  have e: "keyExists \<lparr>urls = [doc_a], drawn = 0\<rparr> (ascii ''5o8hkag'')"
    by (simp add: keyExists_def findOne_def doc_a_def)
  have "post_newURL example_env \<lparr>urls = [doc_a], drawn = 0\<rparr> body_b
       = Some (\<lparr>urls = [doc_a], drawn = 0\<rparr>, Failed (new_Error existsErrorMessage))"
    by (simp add: post_newURL_def run_Start start_body_b run_AwaitKeyExists e)
  with d show ?thesis by (simp add: race_example status_duplicate status_exists)
qed

subsection \<open>C3: a requested slug that is refused\<close>

text \<open>
  Claim C3, as amended. An allocation with a non-empty slug \<open>s\<close> of key \<open>k\<close> and a valid
  target fails with the error of "already exists" (status 444) when \<^verbatim>\<open>keyExists\<close>
  finds the key. When the key is free and the key without its last code unit is the slug
  itself, it fails with the error "There must be at least 1 emoji in the slug" (status
  555), not with "already exists"; that is the case of every slug of ASCII characters.
\<close>

theorem requested_slug_rejections:
  assumes "body_emojis b = Some s" "s \<noteq> []" "encode s = Some k"
    "url_schema env (body_url b) = None"
  shows "(keyExists w k \<longrightarrow>
            post_newURL env w b = Some (w, Failed (new_Error existsErrorMessage))
            \<and> error_status (new_Error existsErrorMessage) = 444)
       \<and> (\<not> keyExists w k \<and> slice_0_minus1 k = s \<longrightarrow>
            post_newURL env w b = Some (w, Failed (new_Error emojiErrorMessage))
            \<and> error_status (new_Error emojiErrorMessage) = 555)
       \<and> ((\<forall>c\<in>set s. c < 0x80) \<longrightarrow> slice_0_minus1 k = s)"
proof -
  have "slice_0_minus1 k = s" if "\<forall>c\<in>set s. c < 0x80"
    using encode_basic [OF that assms(2)] assms(3) by (auto simp: slice_0_minus1_def)
  then show ?thesis
    by (simp add: post_newURL_def run_Start start_request_slug [OF assms] run_AwaitKeyExists
        run_check_slug status_exists status_emoji)
qed

text \<open>
  The claim as stated fails for the slug \<^verbatim>\<open>abc\<close> on the empty collection: its key is
  \<^verbatim>\<open>abc-\<close>, the slug is the key without its last character, and the allocation
  fails with the error about the missing emoji, which is not the error of "already
  exists".
\<close>

theorem already_canonical_counterexample:
  "post_newURL example_env empty_world
       \<lparr>body_emojis = Some (ascii ''abc''), body_url = Some (ascii ''https://a.com'')\<rparr>
     = Some (empty_world, Failed (new_Error emojiErrorMessage))
   \<and> encode (ascii ''abc'') = Some (ascii ''abc-'')
   \<and> slice_0_minus1 (ascii ''abc-'') = ascii ''abc''
   \<and> new_Error emojiErrorMessage \<noteq> new_Error existsErrorMessage
   \<and> error_status (new_Error emojiErrorMessage) = 555"
proof -
  have k: "ascii ''abc'' \<noteq> []" by (simp add: ascii_def)
  have s: "slice_0_minus1 (ascii ''abc-'') = ascii ''abc''"
    by (simp add: slice_0_minus1_def ascii_def)
  have "start_request example_env
          \<lparr>body_emojis = Some (ascii ''abc''), body_url = Some (ascii ''https://a.com'')\<rparr>
        = AwaitKeyExists (ascii ''abc-'') (ascii ''abc'') (Some (ascii ''https://a.com''))"
    using start_request_slug [of _ "ascii ''abc''" "ascii ''abc-''" example_env] k
    by (simp add: encode_abc example_url_ok)
  moreover have "\<not> keyExists empty_world (ascii ''abc-'')"
    by (simp add: keyExists_def findOne_def empty_world_def)
  moreover have "new_Error emojiErrorMessage \<noteq> new_Error existsErrorMessage"
    by (simp add: new_Error_def emojiErrorMessage_def existsErrorMessage_def ascii_def)
  ultimately show ?thesis
    by (simp add: post_newURL_def run_Start run_AwaitKeyExists run_check_slug s encode_abc
        status_emoji)
qed

text \<open>
  The theorem at a second allocation of the slug of cat, dog and frog, after the first
  one was stored: the key exists and the allocation fails with "already exists".
\<close>

theorem requested_slug_rejections_witness:
  "body_emojis body_b = Some cat_dog_frog
   \<and> cat_dog_frog \<noteq> []
   \<and> encode cat_dog_frog = Some (ascii ''5o8hkag'')
   \<and> url_schema example_env (body_url body_b) = None
   \<and> keyExists \<lparr>urls = [doc_a], drawn = 0\<rparr> (ascii ''5o8hkag'')
   \<and> post_newURL example_env \<lparr>urls = [doc_a], drawn = 0\<rparr> body_b
       = Some (\<lparr>urls = [doc_a], drawn = 0\<rparr>, Failed (new_Error existsErrorMessage))"
proof -
  have h: "body_emojis body_b = Some cat_dog_frog" "cat_dog_frog \<noteq> []"
    "encode cat_dog_frog = Some (ascii ''5o8hkag'')"
    "url_schema example_env (body_url body_b) = None"
    by (simp_all add: body_b_def cat_dog_frog_def encode_cat_dog_frog example_url_b_ok)
  have e: "keyExists \<lparr>urls = [doc_a], drawn = 0\<rparr> (ascii ''5o8hkag'')"
    by (simp add: keyExists_def findOne_def doc_a_def)
  from requested_slug_rejections [OF h, of "\<lparr>urls = [doc_a], drawn = 0\<rparr>"] h e
  show ?thesis by simp
qed

subsection \<open>C4: the generated slug\<close>

text \<open>
  Claim C4. Whenever an allocation answers with a created document, the key of that
  document was not in the collection before the call, and the collection after it is the
  old one with that document at its end. When the body has no slug and a valid target,
  the first \<open>j\<close> candidates of the generator have keys in use and the next one has a free
  key (and is not refused by the check of line 148), the allocation ends: it has run
  \<open>j + 1\<close> rounds of the loop, one more for each collision, and answers with the
  document of that candidate.
\<close>

theorem auto_generation:
  "(post_newURL env w b = Some (w', Sent d) \<longrightarrow>
      emojis d \<notin> set (map emojis (urls w)) \<and> urls w' = urls w @ [d])
   \<and> (no_slug b \<and> url_schema env (body_url b) = None
      \<and> (\<forall>i<j. \<exists>k'. encode (candidate env w i) = Some k' \<and> keyExists w k')
      \<and> encode (candidate env w j) = Some k \<and> \<not> keyExists w k
      \<and> slice_0_minus1 k \<noteq> candidate env w j
      \<longrightarrow> post_newURL env w b
            = Some (\<lparr>urls = urls w @ [\<lparr>emojis = k, url = body_url b, raw = candidate env w j\<rparr>],
                      drawn = drawn w + 5 * (j + 1)\<rparr>,
                    Sent \<lparr>emojis = k, url = body_url b, raw = candidate env w j\<rparr>)
          \<and> k \<notin> set (map emojis (urls w)))"
proof (intro conjI impI)
  assume "post_newURL env w b = Some (w', Sent d)"
  then have r: "run env w (Start b) = Some (w', Sent d)" by (simp add: post_newURL_def)
  from run_sent [OF r]
  show "emojis d \<notin> set (map emojis (urls w))" and "urls w' = urls w @ [d]" by simp_all
next
  assume a: "no_slug b \<and> url_schema env (body_url b) = None
      \<and> (\<forall>i<j. \<exists>k'. encode (candidate env w i) = Some k' \<and> keyExists w k')
      \<and> encode (candidate env w j) = Some k \<and> \<not> keyExists w k
      \<and> slice_0_minus1 k \<noteq> candidate env w j"
  let ?wj = "w\<lparr>drawn := drawn w + 5 * j\<rparr>"
  from a have free: "k \<notin> set (map emojis (urls w))" by (simp add: keyExists_iff)
  from a have s: "start_request env b = AwaitGenerate (body_url b)"
    by (simp add: start_request_no_slug)
  from a have loop: "run env w (AwaitGenerate (body_url b)) = run env ?wj (AwaitGenerate (body_url b))"
    by (intro generate_loop) simp
  have cj: "candidate env ?wj 0 = candidate env w j" by (simp add: candidate_def)
  from a have "generate_round env ?wj (body_url b)
                 = (?wj\<lparr>drawn := drawn ?wj + 5\<rparr>, check_slug k (candidate env w j) (body_url b))"
    using generate_round_free [of env ?wj k "body_url b"] by (simp add: cj keyExists_drawn)
  then have last: "run env ?wj (AwaitGenerate (body_url b))
      = run env (w\<lparr>drawn := drawn w + 5 * (j + 1)\<rparr>)
          (check_slug k (candidate env w j) (body_url b))"
    by (simp add: run_AwaitGenerate add.assoc add.commute [of 5])
  have "post_newURL env w b = run env w (AwaitGenerate (body_url b))"
    by (simp add: post_newURL_def run_Start s)
  also note loop
  also note last
  also from a free have "run env (w\<lparr>drawn := drawn w + 5 * (j + 1)\<rparr>)
          (check_slug k (candidate env w j) (body_url b))
      = Some (\<lparr>urls = urls w @ [\<lparr>emojis = k, url = body_url b, raw = candidate env w j\<rparr>],
                drawn = drawn w + 5 * (j + 1)\<rparr>,
              Sent \<lparr>emojis = k, url = body_url b, raw = candidate env w j\<rparr>)"
    by (simp add: run_check_slug urls_insert_def)
  finally show "post_newURL env w b
            = Some (\<lparr>urls = urls w @ [\<lparr>emojis = k, url = body_url b, raw = candidate env w j\<rparr>],
                      drawn = drawn w + 5 * (j + 1)\<rparr>,
                    Sent \<lparr>emojis = k, url = body_url b, raw = candidate env w j\<rparr>)" .
  from free show "k \<notin> set (map emojis (urls w))" .
qed

text \<open>
  The theorem on a collection that holds the key of the first candidate: the loop goes
  round once more, ten emoji are drawn, and the second candidate is stored.
\<close>

theorem auto_generation_witness:
  "no_slug body_no_slug
   \<and> url_schema example_env (body_url body_no_slug) = None
   \<and> encode (candidate example_env \<lparr>urls = [doc_first], drawn = 0\<rparr> 0) = Some (ascii ''5o8hcdef'')
   \<and> keyExists \<lparr>urls = [doc_first], drawn = 0\<rparr> (ascii ''5o8hcdef'')
   \<and> encode (candidate example_env \<lparr>urls = [doc_first], drawn = 0\<rparr> 1) = Some (ascii ''bp8hcdef'')
   \<and> \<not> keyExists \<lparr>urls = [doc_first], drawn = 0\<rparr> (ascii ''bp8hcdef'')
   \<and> post_newURL example_env \<lparr>urls = [doc_first], drawn = 0\<rparr> body_no_slug
       = Some (\<lparr>urls = [doc_first, doc_second], drawn = 10\<rparr>, Sent doc_second)
   \<and> emojis doc_second \<notin> set (map emojis [doc_first])"
proof -
  let ?w = "\<lparr>urls = [doc_first], drawn = 0\<rparr>"
  have c0: "candidate example_env ?w 0 = raw doc_first"
    by (simp add: candidate_def five_emojis_0 doc_first_def)
  have c1: "candidate example_env ?w 1 = raw doc_second"
    by (simp add: candidate_def five_emojis_5 doc_second_def)
  have e0: "encode (raw doc_first) = Some (ascii ''5o8hcdef'')"
    by (simp add: doc_first_def encode_first_five)
  have e1: "encode (raw doc_second) = Some (ascii ''bp8hcdef'')"
    by (simp add: doc_second_def encode_second_five)
  have k0: "keyExists ?w (ascii ''5o8hcdef'')"
    by (simp add: keyExists_def findOne_def doc_first_def)
  have k1: "\<not> keyExists ?w (ascii ''bp8hcdef'')"
    by (simp add: keyExists_def findOne_def doc_first_def ascii_def)
  have n: "no_slug body_no_slug" "url_schema example_env (body_url body_no_slug) = None"
    by (simp_all add: no_slug_def body_no_slug_def example_url_ok)
  have sl: "slice_0_minus1 (ascii ''bp8hcdef'') \<noteq> raw doc_second"
    by (simp add: slice_0_minus1_def doc_second_def ascii_def)
  have pre: "\<forall>i<1. \<exists>k'. encode (candidate example_env ?w i) = Some k' \<and> keyExists ?w k'"
    using c0 e0 k0 by simp
  have d2: "\<lparr>emojis = ascii ''bp8hcdef'', url = body_url body_no_slug, raw = raw doc_second\<rparr>
              = doc_second"
    by (simp add: doc_second_def body_no_slug_def)
  from auto_generation [of example_env ?w body_no_slug
      "\<lparr>urls = [doc_first, doc_second], drawn = 10\<rparr>" doc_second 1 "ascii ''bp8hcdef''"]
    n pre c1 e1 k1 sl
  have "post_newURL example_env ?w body_no_slug
       = Some (\<lparr>urls = [doc_first, doc_second], drawn = 10\<rparr>, Sent doc_second)
       \<and> emojis doc_second \<notin> set (map emojis [doc_first])"
    by (simp add: d2)
  with n c0 c1 e0 e1 k0 k1 show ?thesis by simp
qed

subsection \<open>C5: a target that is not a URL\<close>




subsection \<open>C6: the pattern of the slug\<close>

text \<open>
  Claim C6 does not hold of the code. The schema has the pattern for a field \<open>emojis\<close>,
  but the handler validates the object \<^verbatim>\<open>{ encodedEmojis, url }\<close>, which has no
  property of that name, so that the pattern is never tested. The slug of an exclamation
  mark and a cat violates the pattern, and so does its key \<^verbatim>\<open>!-232s\<close>; the
  allocation stores the document all the same.
\<close>

theorem pattern_never_checked:
  "post_newURL example_env empty_world
       \<lparr>body_emojis = Some [33, 0xD83D, 0xDC31], body_url = Some (ascii ''https://a.com'')\<rparr>
     = Some (\<lparr>urls = [\<lparr>emojis = ascii ''!-232s'', url = Some (ascii ''https://a.com''),
                        raw = [33, 0xD83D, 0xDC31]\<rparr>], drawn = 0\<rparr>,
             Sent \<lparr>emojis = ascii ''!-232s'', url = Some (ascii ''https://a.com''),
                    raw = [33, 0xD83D, 0xDC31]\<rparr>)
   \<and> \<not> matches_pattern (trim [33, 0xD83D, 0xDC31])
   \<and> \<not> matches_pattern (trim (ascii ''!-232s''))"
proof -
  have "start_request example_env
          \<lparr>body_emojis = Some [33, 0xD83D, 0xDC31], body_url = Some (ascii ''https://a.com'')\<rparr>
        = AwaitKeyExists (ascii ''!-232s'') [33, 0xD83D, 0xDC31] (Some (ascii ''https://a.com''))"
    by (simp add: start_request_def validate_and_branch_eq encode_bang_cat example_url_ok)
       (simp add: ascii_def)
  moreover have "\<not> matches_pattern (trim [33, 0xD83D, 0xDC31])"
    "\<not> matches_pattern (trim (ascii ''!-232s''))"
    by (simp_all add: matches_pattern_def trim_def isWhiteSpace_def isWordChar_def ascii_def)
  ultimately show ?thesis
    by (simp add: post_newURL_def run_Start run_AwaitKeyExists run_check_slug keyExists_def
        findOne_def empty_world_def urls_insert_def slice_0_minus1_def ascii_def)
qed

subsection \<open>C7: the key is the encoding of the raw slug\<close>

text \<open>
  Claim C7. The encoder is a function of the slug alone: \<open>encode\<close> takes no state, so
  two calls on one slug give one key. Every document that an allocation stores has the
  encoding of its raw slug as its key, whether the slug came with the request or from the
  generator: when that holds of the collection and of the requests in flight, it holds
  after every schedule, of every stored document and of every document in a response;
  and it holds of the document and the collection of an allocation that runs alone.
\<close>

theorem stored_keys_canonical:
  "(keys_canonical w \<and> list_all request_consistent ps \<and> sys_exec env evs (w, ps) = (w', ps')
      \<longrightarrow> (\<forall>d\<in>set (urls w'). encode (raw d) = Some (emojis d))
          \<and> (\<forall>d. Done (Sent d) \<in> set ps' \<longrightarrow> encode (raw d) = Some (emojis d)))
   \<and> (keys_canonical w \<and> post_newURL env w b = Some (w'', Sent d'')
      \<longrightarrow> encode (raw d'') = Some (emojis d'') \<and> urls w'' = urls w @ [d'']
          \<and> (\<forall>d\<in>set (urls w''). encode (raw d) = Some (emojis d)))"
proof (intro conjI impI)
  assume a: "keys_canonical w \<and> list_all request_consistent ps
             \<and> sys_exec env evs (w, ps) = (w', ps')"
  with sys_exec_consistent [of w ps env evs]
  have k: "keys_canonical w'" and l: "list_all request_consistent ps'" by simp_all
  from k show "\<forall>d\<in>set (urls w'). encode (raw d) = Some (emojis d)"
    by (simp add: keys_canonical_def list_all_iff)
  from l show "\<forall>d. Done (Sent d) \<in> set ps' \<longrightarrow> encode (raw d) = Some (emojis d)"
    by (auto simp: list_all_iff)
next
  assume a: "keys_canonical w \<and> post_newURL env w b = Some (w'', Sent d'')"
  then have r: "run env w (Start b) = Some (w'', Sent d'')" by (simp add: post_newURL_def)
  from run_consistent [OF r] a
  show "encode (raw d'') = Some (emojis d'')" by simp
  from run_sent [OF r] show "urls w'' = urls w @ [d'']" by simp
  from run_consistent [OF r] a
  show "\<forall>d\<in>set (urls w''). encode (raw d) = Some (emojis d)"
    by (simp add: keys_canonical_def list_all_iff)
qed

text \<open>The theorem at the race of the example: the stored document has the key of its slug.\<close>

theorem stored_keys_canonical_witness:
  "keys_canonical empty_world
   \<and> list_all request_consistent [Start body_a, Start body_b]
   \<and> sys_exec example_env [Step 0, Step 1, Step 0, Step 1, Step 0, Step 1]
         (empty_world, [Start body_a, Start body_b])
       = (\<lparr>urls = [doc_a], drawn = 0\<rparr>, [Done (Sent doc_a), Done (Failed duplicateKeyError)])
   \<and> encode (raw doc_a) = Some (emojis doc_a)"
proof -
  have k: "keys_canonical empty_world" by (simp add: keys_canonical_def empty_world_def)
  have l: "list_all request_consistent [Start body_a, Start body_b]" by simp
  from stored_keys_canonical [of empty_world "[Start body_a, Start body_b]" example_env
      "[Step 0, Step 1, Step 0, Step 1, Step 0, Step 1]"
      "\<lparr>urls = [doc_a], drawn = 0\<rparr>" "[Done (Sent doc_a), Done (Failed duplicateKeyError)]"]
    k l race_steps
  have "encode (raw doc_a) = Some (emojis doc_a)" by simp
  with k l race_steps show ?thesis by simp
qed

subsection \<open>C8: resolution reads and does not write\<close>

text \<open>
  Claim C8. Any number of resolutions, of any keys, leave the world as it was, in both
  variants of the service. A key that no stored document has is answered with "not
  found" (status 404) and nothing is created. A key that a stored document has is
  answered with the link to the raw slug and the target of a stored document with
  exactly that key; with distinct keys that is the one document of that key.
\<close>

theorem resolve_read_only:
  "fold (\<lambda>k w'. fst (get_id env w' k)) ks w = w
   \<and> fold (\<lambda>k w'. fst (get_id_api env w' k)) ks w = w
   \<and> (k \<notin> set (map emojis (urls w)) \<longrightarrow>
        get_id env w k = (w, NotFound 404) \<and> get_id_api env w k = (w, NotFound 404))
   \<and> (k \<in> set (map emojis (urls w)) \<longrightarrow>
        (\<exists>d\<in>set (urls w). emojis d = k
           \<and> get_id env w k
               = (w, Found (ascii ''https://'' @ domain env @ ascii ''/'' @ raw d) (url d))
           \<and> get_id_api env w k
               = (w, Found (ascii ''http://'' @ domain env @ ascii ''/'' @ raw d) (url d))))
   \<and> (distinct (map emojis (urls w)) \<longrightarrow>
        (\<forall>d\<in>set (urls w).
           get_id env w (emojis d)
             = (w, Found (ascii ''https://'' @ domain env @ ascii ''/'' @ raw d) (url d))))"
proof (intro conjI impI ballI)
  show "fold (\<lambda>k w'. fst (get_id env w' k)) ks w = w" by (rule resolve_many)
  show "fold (\<lambda>k w'. fst (get_id_api env w' k)) ks w = w" by (rule resolve_many_api)
next
  assume "k \<notin> set (map emojis (urls w))"
  then have n: "findOne k w = None" by (simp add: findOne_None)
  show "get_id env w k = (w, NotFound 404)" by (simp add: get_id_def n)
  show "get_id_api env w k = (w, NotFound 404)" by (simp add: get_id_api_def n)
next
  assume "k \<in> set (map emojis (urls w))"
  then obtain d where d: "findOne k w = Some d"
    using findOne_None [of k w] by (cases "findOne k w") auto
  from findOne_Some [OF d] show "\<exists>d\<in>set (urls w). emojis d = k
           \<and> get_id env w k
               = (w, Found (ascii ''https://'' @ domain env @ ascii ''/'' @ raw d) (url d))
           \<and> get_id_api env w k
               = (w, Found (ascii ''http://'' @ domain env @ ascii ''/'' @ raw d) (url d))"
    by (auto simp: get_id_def get_id_api_def d intro!: bexI [of _ d])
next
  fix d
  assume "distinct (map emojis (urls w))" "d \<in> set (urls w)"
  then have "findOne (emojis d) w = Some d" by (simp add: findOne_def find_unique)
  then show "get_id env w (emojis d)
             = (w, Found (ascii ''https://'' @ domain env @ ascii ''/'' @ raw d) (url d))"
    by (simp add: get_id_def)
qed

text \<open>
  The theorem on the collection of one document: a key that is not stored is not found,
  and the key of the document resolves to its slug and its target.
\<close>

theorem resolve_read_only_witness:
  "ascii ''nonexistent-key'' \<notin> set (map emojis (urls \<lparr>urls = [doc_a], drawn = 0\<rparr>))
   \<and> get_id example_env \<lparr>urls = [doc_a], drawn = 0\<rparr> (ascii ''nonexistent-key'')
       = (\<lparr>urls = [doc_a], drawn = 0\<rparr>, NotFound 404)
   \<and> distinct (map emojis (urls \<lparr>urls = [doc_a], drawn = 0\<rparr>))
   \<and> get_id example_env \<lparr>urls = [doc_a], drawn = 0\<rparr> (emojis doc_a)
       = (\<lparr>urls = [doc_a], drawn = 0\<rparr>,
          Found (ascii ''https://'' @ domain example_env @ ascii ''/'' @ raw doc_a) (url doc_a))"
proof -
  have n: "ascii ''nonexistent-key'' \<notin> set (map emojis (urls \<lparr>urls = [doc_a], drawn = 0\<rparr>))"
    by (simp add: doc_a_def ascii_def)
  have d: "distinct (map emojis (urls \<lparr>urls = [doc_a], drawn = 0\<rparr>))" by simp
  from resolve_read_only [of example_env "[]" "\<lparr>urls = [doc_a], drawn = 0\<rparr>"
      "ascii ''nonexistent-key''"] n d
  show ?thesis by simp
qed

subsection \<open>C9: the listings\<close>

text \<open>
  Claim C9. For a positive \<open>n\<close>, the listing of the last \<open>n\<close> is the first \<open>n\<close> documents
  of the reversed collection: the \<open>n\<close> documents created last (all of them when there are
  fewer than \<open>n\<close>), the most recent first. The full listing is the reversed collection.
\<close>

theorem get_last_most_recent_first:
  "0 < n \<Longrightarrow>
     get_last n w = take (nat n) (rev (urls w))
     \<and> get_all w = rev (urls w)
     \<and> length (get_last n w) = min (nat n) (length (urls w))
     \<and> (\<forall>i < length (get_last n w). get_last n w ! i = urls w ! (length (urls w) - 1 - i))"
proof -
  assume n: "0 < n"
  have a: "get_last n w = take (nat n) (rev (urls w))"
    using n by (simp add: get_last_def slice_from_neg take_rev)
  have b: "get_all w = rev (urls w)" by (simp add: get_all_def)
  have c: "length (get_last n w) = min (nat n) (length (urls w))" by (simp add: a min.commute)
  have d: "\<forall>i < length (get_last n w). get_last n w ! i = urls w ! (length (urls w) - 1 - i)"
    by (simp add: a rev_nth)
  from a b c d show ?thesis by blast
qed

text \<open>The last two of three documents, the most recent first.\<close>

theorem get_last_most_recent_first_witness:
  "(0::int) < 2
   \<and> get_last 2 \<lparr>urls = [doc_first, doc_a, doc_second], drawn = 0\<rparr> = [doc_second, doc_a]
   \<and> get_all \<lparr>urls = [doc_first, doc_a, doc_second], drawn = 0\<rparr> = [doc_second, doc_a, doc_first]"
  using get_last_most_recent_first [of 2 "\<lparr>urls = [doc_first, doc_a, doc_second], drawn = 0\<rparr>"]
  by simp

subsection \<open>C10: the generator of the older variant\<close>

text \<open>
  Claim C10. In \<^verbatim>\<open>src/api.js\<close>, \<^verbatim>\<open>keyExists\<close> gives \<^verbatim>\<open>undefined\<close> for every key and
  every collection, so that \<^verbatim>\<open>generateRandomEmojis\<close> leaves its loop after one round:
  it draws five emoji and returns them, whether or not their key is in the collection. (If
  the encoder overflowed on them, its error would leave the function instead.)
\<close>

theorem api_generate_one_round:
  "keyExists_api w key = Undefined
   \<and> generateRandomEmojis_api env w =
       Some (w\<lparr>drawn := drawn w + 5\<rparr>,
             case encode (five_emojis env (drawn w)) of
               None \<Rightarrow> Inl overflowError
             | Some k \<Rightarrow> Inr (five_emojis env (drawn w)))"
  apply (rule conjI)
   apply (simp add: keyExists_api_def)
  apply (subst generateRandomEmojis_api.simps)
  apply (simp add: keyExists_api_def split: option.splits)
  done

text \<open>
  The first candidate is returned although the collection holds its key.
\<close>

theorem api_generate_one_round_witness:
  "keyExists \<lparr>urls = [doc_first], drawn = 0\<rparr> (ascii ''5o8hcdef'')
   \<and> encode (raw doc_first) = Some (ascii ''5o8hcdef'')
   \<and> generateRandomEmojis_api example_env \<lparr>urls = [doc_first], drawn = 0\<rparr>
       = Some (\<lparr>urls = [doc_first], drawn = 5\<rparr>, Inr (raw doc_first))"
proof -
  have k0: "keyExists \<lparr>urls = [doc_first], drawn = 0\<rparr> (ascii ''5o8hcdef'')"
    by (simp add: keyExists_def findOne_def doc_first_def)
  have e0: "encode (raw doc_first) = Some (ascii ''5o8hcdef'')"
    by (simp add: doc_first_def encode_first_five)
  have f: "five_emojis example_env 0 = raw doc_first"
    by (simp add: five_emojis_0 doc_first_def)
  from api_generate_one_round [of "\<lparr>urls = [doc_first], drawn = 0\<rparr>" "ascii ''5o8hcdef''" example_env]
  have "generateRandomEmojis_api example_env \<lparr>urls = [doc_first], drawn = 0\<rparr>
       = Some (\<lparr>urls = [doc_first], drawn = 5\<rparr>, Inr (raw doc_first))"
    by (simp add: f e0)
  with k0 e0 show ?thesis by simp
qed

end
